theory Spec2Isabelle
  imports Main
begin

section \<open>Strings\<close>

text \<open>
  Python strings are modelled as \<^typ>\<open>string\<close>, a character being a code point below 256
  (Latin-1). On these code points \<open>str.strip()\<close> removes tab, line feed, vertical tab, form
  feed, carriage return, the four separators 0x1C..0x1F, space, next line (0x85) and
  no-break space (0xA0); \<open>str.lower()\<close> maps \<open>A..Z\<close> to \<open>a..z\<close> and the capital letters
  0xC0..0xDE (without the multiplication sign 0xD7) to the letters 0x20 above them, and
  leaves every other character as it is.
\<close>

definition is_space :: "char \<Rightarrow> bool" where
  "is_space c = (c \<in> set [CHR 0x09, CHR 0x0A, CHR 0x0B, CHR 0x0C, CHR 0x0D,
                            CHR 0x1C, CHR 0x1D, CHR 0x1E, CHR 0x1F, CHR '' '',
                            CHR 0x85, CHR 0xA0])"

definition upper_case_chars :: "char list" where
  "upper_case_chars =
     ''ABCDEFGHIJKLMNOPQRSTUVWXYZ'' @
     [CHR 0xC0, CHR 0xC1, CHR 0xC2, CHR 0xC3, CHR 0xC4, CHR 0xC5, CHR 0xC6, CHR 0xC7,
      CHR 0xC8, CHR 0xC9, CHR 0xCA, CHR 0xCB, CHR 0xCC, CHR 0xCD, CHR 0xCE, CHR 0xCF,
      CHR 0xD0, CHR 0xD1, CHR 0xD2, CHR 0xD3, CHR 0xD4, CHR 0xD5, CHR 0xD6, CHR 0xD8,
      CHR 0xD9, CHR 0xDA, CHR 0xDB, CHR 0xDC, CHR 0xDD, CHR 0xDE]"

definition lower_case_chars :: "char list" where
  "lower_case_chars =
     ''abcdefghijklmnopqrstuvwxyz'' @
     [CHR 0xE0, CHR 0xE1, CHR 0xE2, CHR 0xE3, CHR 0xE4, CHR 0xE5, CHR 0xE6, CHR 0xE7,
      CHR 0xE8, CHR 0xE9, CHR 0xEA, CHR 0xEB, CHR 0xEC, CHR 0xED, CHR 0xEE, CHR 0xEF,
      CHR 0xF0, CHR 0xF1, CHR 0xF2, CHR 0xF3, CHR 0xF4, CHR 0xF5, CHR 0xF6, CHR 0xF8,
      CHR 0xF9, CHR 0xFA, CHR 0xFB, CHR 0xFC, CHR 0xFD, CHR 0xFE]"

definition lower_char :: "char \<Rightarrow> char" where
  "lower_char c =
     (case map_of (zip upper_case_chars lower_case_chars) c of
        Some d \<Rightarrow> d
      | None \<Rightarrow> c)"

text \<open>\<open>s.lower()\<close>\<close>

definition lower :: "string \<Rightarrow> string" where
  "lower s = map lower_char s"

text \<open>\<open>s.strip(chars)\<close>, with the character set given as a predicate.\<close>

definition strip_chars :: "(char \<Rightarrow> bool) \<Rightarrow> string \<Rightarrow> string" where
  "strip_chars p s = rev (dropWhile p (rev (dropWhile p s)))"

text \<open>\<open>s.strip()\<close>\<close>

definition strip :: "string \<Rightarrow> string" where
  "strip s = strip_chars is_space s"

text \<open>
  \<open>s.split(sep, 1)\<close> for a one-character separator: element 0 is the text before the first
  separator (the whole string when there is none); element 1, which exists only when the
  separator occurs, is the text after it.
\<close>

definition split1_head :: "char \<Rightarrow> string \<Rightarrow> string" where
  "split1_head sep s = takeWhile (\<lambda>c. c \<noteq> sep) s"

definition split1_tail :: "char \<Rightarrow> string \<Rightarrow> string option" where
  "split1_tail sep s =
     (case dropWhile (\<lambda>c. c \<noteq> sep) s of [] \<Rightarrow> None | _ # rest \<Rightarrow> Some rest)"

text \<open>
  \<open>s.replace(old, "")\<close> for a non-empty \<open>old\<close>: the occurrences are removed from left to
  right, without overlap.
\<close>

function remove_all :: "string \<Rightarrow> string \<Rightarrow> string" where
  "remove_all old [] = []"
| "remove_all old (c # cs) =
     (if old \<noteq> [] \<and> take (length old) (c # cs) = old
      then remove_all old (drop (length old) (c # cs))
      else c # remove_all old cs)"
  by pat_completeness auto
termination
  by (relation "measure (\<lambda>(old, s). length s)") auto

text \<open>
  \<open>re.split\<close> on a pattern that matches exactly one character of a class: the pieces between
  the separators, empty pieces included.
\<close>

fun split_on :: "(char \<Rightarrow> bool) \<Rightarrow> string \<Rightarrow> string list" where
  "split_on p [] = [[]]"
| "split_on p (c # cs) =
     (if p c then [] # split_on p cs
      else (case split_on p cs of
              [] \<Rightarrow> [[c]]
            | w # ws \<Rightarrow> (c # w) # ws))"

section \<open>The candidate expander\<close>

text \<open>The pattern \<open>,|/|;\<close> of \<open>re.split\<close>.\<close>

definition is_separator :: "char \<Rightarrow> bool" where
  "is_separator c = (c = CHR '','' \<or> c = CHR ''/'' \<or> c = CHR '';'')"

text \<open>
  The closing loop of \<open>parse_candidate_names\<close>: a candidate is kept when its lower-case form
  has not been seen.
\<close>

fun dedup_ordered :: "string set \<Rightarrow> string list \<Rightarrow> string list" where
  "dedup_ordered seen [] = []"
| "dedup_ordered seen (candidate # rest) =
     (let key = lower candidate in
      if key \<notin> seen then candidate # dedup_ordered (insert key seen) rest
      else dedup_ordered seen rest)"

text \<open>The candidates collected before the closing loop; \<open>raw_name\<close> is already stripped.\<close>

definition collect_candidates :: "string \<Rightarrow> string list" where
  "collect_candidates raw_name =
     (let candidates =
        (if CHR ''('' \<in> set raw_name \<and> CHR '')'' \<in> set raw_name then
           (let base = strip (split1_head (CHR ''('') raw_name);
                inside = split1_head (CHR '')'') (case split1_tail (CHR ''('') raw_name of
                                                     Some t \<Rightarrow> t | None \<Rightarrow> []);
                cleaned = remove_all ''syn.'' inside
            in (if base \<noteq> [] then [base] else []) @
               filter (\<lambda>part. part \<noteq> []) (map strip (split_on is_separator cleaned)))
         else [raw_name])
      in if raw_name \<notin> set candidates then candidates @ [raw_name] else candidates)"

text \<open>\<open>parse_candidate_names\<close> of \<open>download_gbif_mushroom_images.py\<close>.\<close>

definition parse_candidate_names :: "string \<Rightarrow> string list" where
  "parse_candidate_names raw_name = dedup_ordered {} (collect_candidates (strip raw_name))"

text \<open>
  \<open>parse_candidate_names\<close> of \<open>download_species_images.py\<close>, with its own closing loop
  (the loop variable is called \<open>name\<close> there).
\<close>

fun dedup_ordered_checklist :: "string set \<Rightarrow> string list \<Rightarrow> string list" where
  "dedup_ordered_checklist seen [] = []"
| "dedup_ordered_checklist seen (name # rest) =
     (let key = lower name in
      if key \<notin> seen then name # dedup_ordered_checklist (insert key seen) rest
      else dedup_ordered_checklist seen rest)"

definition parse_candidate_names_checklist :: "string \<Rightarrow> string list" where
  "parse_candidate_names_checklist raw_name0 =
     (let raw_name = strip raw_name0;
          base = raw_name;
          candidates =
            (if CHR ''('' \<in> set raw_name \<and> CHR '')'' \<in> set raw_name then
               (let base = strip (split1_head (CHR ''('') raw_name);
                    inside = split1_head (CHR '')'')
                               (case split1_tail (CHR ''('') raw_name of
                                  Some t \<Rightarrow> t | None \<Rightarrow> []);
                    cleaned = remove_all ''syn.'' inside
                in (if base \<noteq> [] then [base] else []) @
                   filter (\<lambda>part. part \<noteq> []) (map strip (split_on is_separator cleaned)))
             else [base]);
          candidates = (if raw_name \<notin> set candidates then candidates @ [raw_name]
                        else candidates)
      in dedup_ordered_checklist {} candidates)"

section \<open>Slugs\<close>

text \<open>The character class \<open>[a-z0-9]\<close>.\<close>

definition is_slug_char :: "char \<Rightarrow> bool" where
  "is_slug_char c = (c \<in> set ''abcdefghijklmnopqrstuvwxyz0123456789'')"

text \<open>
  \<open>re.sub(r"[^a-z0-9]+", "_", s)\<close>: every maximal run of characters outside the class
  becomes one underscore.
\<close>

function sub_non_slug :: "string \<Rightarrow> string" where
  "sub_non_slug [] = []"
| "sub_non_slug (c # cs) =
     (if is_slug_char c then c # sub_non_slug cs
      else CHR ''_'' # sub_non_slug (dropWhile (\<lambda>d. \<not> is_slug_char d) cs))"
  by pat_completeness auto
termination
  by (relation "measure length") (auto simp: length_dropWhile_le less_Suc_eq_le)

text \<open>\<open>slugify\<close> of \<open>download_gbif_mushroom_images.py\<close>.\<close>

definition slugify :: "string \<Rightarrow> string" where
  "slugify name = strip_chars (\<lambda>c. c = CHR ''_'') (sub_non_slug (lower name))"

text \<open>\<open>slugify\<close> of \<open>download_species_images.py\<close>.\<close>

definition slugify_checklist :: "string \<Rightarrow> string" where
  "slugify_checklist name = strip_chars (\<lambda>c. c = CHR ''_'') (sub_non_slug (lower name))"

text \<open>
  The pattern \<open>^[a-z0-9]+(_[a-z0-9]+)*$\<close> as an automaton that reads the string from the
  left: the flag says whether the character just read is of the class \<open>[a-z0-9]\<close>. An
  underscore is accepted only after such a character, and the string must end after one.
\<close>

fun slug_pattern_from :: "bool \<Rightarrow> string \<Rightarrow> bool" where
  "slug_pattern_from after_alnum [] = after_alnum"
| "slug_pattern_from after_alnum (c # cs) =
     (if is_slug_char c then slug_pattern_from True cs
      else c = CHR ''_'' \<and> after_alnum \<and> slug_pattern_from False cs)"

definition matches_slug_pattern :: "string \<Rightarrow> bool" where
  "matches_slug_pattern s = slug_pattern_from False s"

text \<open>
  The same pattern as a grammar: a non-empty run of the class, or such a run, an underscore
  and a word of the pattern.
\<close>

inductive slug_word :: "string \<Rightarrow> bool" where
  run: "w \<noteq> [] \<Longrightarrow> list_all is_slug_char w \<Longrightarrow> slug_word w"
| more: "w \<noteq> [] \<Longrightarrow> list_all is_slug_char w \<Longrightarrow> slug_word v \<Longrightarrow>
         slug_word (w @ CHR ''_'' # v)"

text \<open>
  An auxiliary normal form for the proofs: only characters of the class and underscores,
  each underscore at the end or right before a character of the class.
\<close>

fun single_underscores :: "string \<Rightarrow> bool" where
  "single_underscores [] = True"
| "single_underscores (c # cs) =
     (if is_slug_char c then single_underscores cs
      else c = CHR ''_'' \<and> (case cs of [] \<Rightarrow> True | d # _ \<Rightarrow> is_slug_char d) \<and>
           single_underscores cs)"

section \<open>Errors and JSON payloads\<close>

text \<open>
  The exceptions the scripts tell apart: the two classes named in their \<open>except\<close> clauses,
  and every other exception (a timeout while reading, a malformed URL, a JSON decoding
  error, ...), which no clause of the scripts catches.
\<close>

datatype error = HTTPError | URLError | OtherError

text \<open>
  The backends answer with JSON objects. Of a key that a script reads, the model keeps the
  value of the type the script expects. Where the script treats an absent key and \<open>null\<close>
  alike (both are false in a test, or replaced by \<open>or\<close>), the field is an option and
  \<open>None\<close> stands for both; where \<open>null\<close> makes the script raise, the field tells the three
  cases apart.
\<close>

datatype 'a json_field = Absent | Null | Value 'a

text \<open>
  The objects of the occurrence search of GBIF; the fields \<open>media_identifier\<close> and
  \<open>media_references\<close> are the keys \<open>identifier\<close> and \<open>references\<close>.
\<close>

record media_item =
  media_identifier :: "string option"
  media_references :: "string option"

record occurrence =
  media :: "media_item list option"

record search_page =
  results :: "occurrence list option"
  count :: "int json_field"

text \<open>
  \<open>media.get("identifier") or media.get("references")\<close>, followed by the test
  \<open>if not url: continue\<close>: the result is \<open>None\<close> when the item is skipped.
\<close>

definition media_url :: "media_item \<Rightarrow> string option" where
  "media_url m =
     (let url = (case media_identifier m of
                   Some u \<Rightarrow> if u \<noteq> [] then Some u else media_references m
                 | None \<Rightarrow> media_references m)
      in case url of
           Some u \<Rightarrow> if u \<noteq> [] then Some u else None
         | None \<Rightarrow> None)"

section \<open>The media lister\<close>

text \<open>
  The inner loop of \<open>fetch_media_urls\<close>, over the media of one record. The state is the
  pair of \<open>urls\<close> and \<open>seen\<close>; the loop is left as soon as \<open>len(urls) >= limit\<close>.
\<close>

fun scan_media :: "int \<Rightarrow> media_item list \<Rightarrow> string list \<times> string set \<Rightarrow> string list \<times> string set" where
  "scan_media limit [] (urls, seen) = (urls, seen)"
| "scan_media limit (m # ms) (urls, seen) =
     (case media_url m of
        None \<Rightarrow> scan_media limit ms (urls, seen)
      | Some url \<Rightarrow>
          if url \<in> seen then scan_media limit ms (urls, seen)
          else if int (length (urls @ [url])) \<ge> limit then (urls @ [url], insert url seen)
          else scan_media limit ms (urls @ [url], insert url seen))"

text \<open>
  The loop over the records of one page: after each record the loop is left when
  \<open>len(urls) >= limit\<close>. \<open>record.get("media", []) or []\<close> is the empty list for an absent
  key.
\<close>

fun scan_results :: "int \<Rightarrow> occurrence list \<Rightarrow> string list \<times> string set \<Rightarrow> string list \<times> string set" where
  "scan_results limit [] st = st"
| "scan_results limit (r # rs) st =
     (let st' = scan_media limit (case media r of Some ms \<Rightarrow> ms | None \<Rightarrow> []) st
      in if int (length (fst st')) \<ge> limit then st' else scan_results limit rs st')"

text \<open>
  The \<open>while\<close> loop of \<open>fetch_media_urls\<close>. The backend is a function from the taxon key
  and the offset to the decoded page, or to the exception that \<open>fetch_json\<close> raises. The
  loop need not end (a backend may go on returning non-empty pages and ever larger counts),
  so it runs on fuel: \<open>None\<close> says the fuel ran out. Besides \<open>urls\<close> the model returns the
  offsets it requested, in order. \<open>payload.get("count", 0)\<close> is 0 for an absent key; for
  \<open>null\<close> the comparison with the offset raises a \<open>TypeError\<close>.
\<close>

fun fetch_media_loop ::
  "nat \<Rightarrow> (int \<Rightarrow> nat \<Rightarrow> error + search_page) \<Rightarrow> int \<Rightarrow> int \<Rightarrow> nat \<Rightarrow>
   string list \<times> string set \<Rightarrow> nat list \<Rightarrow> (error + string list \<times> nat list) option" where
  "fetch_media_loop fuel search taxon_key limit offset (urls, seen) requested =
     (if \<not> int (length urls) < limit then Some (Inr (urls, requested))
      else (case fuel of
              0 \<Rightarrow> None
            | Suc fuel' \<Rightarrow>
               (case search taxon_key offset of
                  Inl e \<Rightarrow> Some (Inl e)
                | Inr payload \<Rightarrow>
                   (let rs = (case results payload of Some rs \<Rightarrow> rs | None \<Rightarrow> [])
                    in if rs = [] then Some (Inr (urls, requested @ [offset]))
                       else (let st' = scan_results limit rs (urls, seen);
                                 offset' = offset + length rs
                             in case count payload of
                                  Null \<Rightarrow> Some (Inl OtherError)
                                | Absent \<Rightarrow> Some (Inr (fst st', requested @ [offset]))
                                | Value c \<Rightarrow>
                                    if int offset' \<ge> c
                                    then Some (Inr (fst st', requested @ [offset]))
                                    else fetch_media_loop fuel' search taxon_key limit offset' st'
                                           (requested @ [offset]))))))"

definition fetch_media_urls ::
  "nat \<Rightarrow> (int \<Rightarrow> nat \<Rightarrow> error + search_page) \<Rightarrow> int \<Rightarrow> int \<Rightarrow>
   (error + string list \<times> nat list) option" where
  "fetch_media_urls fuel search taxon_key limit =
     fetch_media_loop fuel search taxon_key limit 0 ([], {}) []"

text \<open>
  For stating what the lister collects: the URLs of one page in the order the loops visit
  them, the URLs of the requested pages, and a list without its repeated elements (the
  first occurrence stays).
\<close>

definition page_urls :: "search_page \<Rightarrow> string list" where
  "page_urls payload =
     concat (map (\<lambda>r. List.map_filter media_url (case media r of Some ms \<Rightarrow> ms | None \<Rightarrow> []))
               (case results payload of Some rs \<Rightarrow> rs | None \<Rightarrow> []))"

definition requested_urls :: "(int \<Rightarrow> nat \<Rightarrow> error + search_page) \<Rightarrow> int \<Rightarrow> nat list \<Rightarrow> string list" where
  "requested_urls search taxon_key offsets =
     concat (map (\<lambda>offset. case search taxon_key offset of
                              Inr payload \<Rightarrow> page_urls payload
                            | Inl e \<Rightarrow> []) offsets)"

fun first_occurrences :: "string set \<Rightarrow> string list \<Rightarrow> string list" where
  "first_occurrences seen [] = []"
| "first_occurrences seen (x # xs) =
     (if x \<in> seen then first_occurrences seen xs
      else x # first_occurrences (insert x seen) xs)"

text \<open>For the proofs: the URLs of one record, and the invariant of the \<open>while\<close> loop.\<close>

definition record_urls :: "occurrence \<Rightarrow> string list" where
  "record_urls r = List.map_filter media_url (case media r of Some ms \<Rightarrow> ms | None \<Rightarrow> [])"

definition lister_inv ::
  "(int \<Rightarrow> nat \<Rightarrow> error + search_page) \<Rightarrow> int \<Rightarrow> int \<Rightarrow> string list \<Rightarrow> nat list \<Rightarrow> bool" where
  "lister_inv search taxon_key limit urls requested \<longleftrightarrow>
     urls = take (nat limit) (first_occurrences {} (requested_urls search taxon_key requested)) \<and>
     (requested = [] \<or>
      length (first_occurrences {} (requested_urls search taxon_key (butlast requested))) < nat limit)"

text \<open>
  A small backend for examples: the page at offset 0 has two records, with the media
  \<open>u1.jpg\<close>, \<open>u2.jpg\<close> and \<open>u2.jpg\<close>, \<open>u3.jpg\<close>, of four records in all; every other page
  is empty.
\<close>

definition example_search :: "int \<Rightarrow> nat \<Rightarrow> error + search_page" where
  "example_search taxon_key offset =
     (if offset = 0 then
        Inr \<lparr>results = Some
               [\<lparr>media = Some [\<lparr>media_identifier = Some ''https://example.org/media/u1.jpg'',
                                 media_references = None\<rparr>,
                               \<lparr>media_identifier = None,
                                 media_references = Some ''https://example.org/media/u2.jpg''\<rparr>]\<rparr>,
                \<lparr>media = Some [\<lparr>media_identifier = Some ''https://example.org/media/u2.jpg'',
                                 media_references = None\<rparr>,
                               \<lparr>media_identifier = Some ''https://example.org/media/u3.jpg'',
                                 media_references = None\<rparr>]\<rparr>],
             count = Value 4\<rparr>
      else Inr \<lparr>results = Some [], count = Value 4\<rparr>)"

section \<open>File names\<close>

text \<open>
  \<open>urlparse(url).path\<close> of \<open>urllib.parse\<close> (Python 3.11): leading control characters and
  spaces are dropped, tabs and line breaks are removed, then the scheme, the network
  location, the fragment, the query and the parameters of the last segment are cut off.
  \<open>urlparse\<close> raises a \<open>ValueError\<close> for a network location with only one of the two square
  brackets. Its further checks of the network location (the host between brackets must be
  an IPv6 or IPvFuture address, the NFKC form of a non-ASCII location must bring in no
  delimiter) depend on the version of the library and are a parameter here:
  \<open>netloc_rejected\<close> says for which locations they raise. The result \<open>None\<close> is the
  \<open>ValueError\<close>.
\<close>

definition c0_control_or_space :: "char list" where
  "c0_control_or_space =
     [CHR 0x00, CHR 0x01, CHR 0x02, CHR 0x03, CHR 0x04, CHR 0x05, CHR 0x06, CHR 0x07,
      CHR 0x08, CHR 0x09, CHR 0x0A, CHR 0x0B, CHR 0x0C, CHR 0x0D, CHR 0x0E, CHR 0x0F,
      CHR 0x10, CHR 0x11, CHR 0x12, CHR 0x13, CHR 0x14, CHR 0x15, CHR 0x16, CHR 0x17,
      CHR 0x18, CHR 0x19, CHR 0x1A, CHR 0x1B, CHR 0x1C, CHR 0x1D, CHR 0x1E, CHR 0x1F,
      CHR '' '']"

definition scheme_chars :: "char list" where
  "scheme_chars =
     ''abcdefghijklmnopqrstuvwxyzABCDEFGHIJKLMNOPQRSTUVWXYZ0123456789+-.''"

definition ascii_letters :: "char list" where
  "ascii_letters = ''abcdefghijklmnopqrstuvwxyzABCDEFGHIJKLMNOPQRSTUVWXYZ''"

definition uses_params :: "string list" where
  "uses_params = [[], ''ftp'', ''hdl'', ''prospero'', ''http'', ''imap'', ''https'', ''shttp'',
                  ''rtsp'', ''rtsps'', ''rtspu'', ''sip'', ''sips'', ''mms'', ''sftp'', ''tel'']"

text \<open>The scheme (in lower case) and the rest of the URL.\<close>

definition split_scheme :: "string \<Rightarrow> string \<times> string" where
  "split_scheme url =
     (let head = takeWhile (\<lambda>c. c \<noteq> CHR '':'') url in
      if CHR '':'' \<in> set url \<and> head \<noteq> [] \<and> hd head \<in> set ascii_letters \<and>
         list_all (\<lambda>c. c \<in> set scheme_chars) head
      then (lower head, drop (Suc (length head)) url)
      else ([], url))"

text \<open>The parameters are those of the last segment: the text from its first \<open>;\<close> on.\<close>

definition drop_params :: "string \<Rightarrow> string" where
  "drop_params p =
     (let last_segment = rev (takeWhile (\<lambda>c. c \<noteq> CHR ''/'') (rev p));
          before = take (length p - length last_segment) p
      in before @ takeWhile (\<lambda>c. c \<noteq> CHR '';'') last_segment)"

definition url_path :: "(string \<Rightarrow> bool) \<Rightarrow> string \<Rightarrow> string option" where
  "url_path netloc_rejected url0 =
     (let url = filter (\<lambda>c. c \<notin> set [CHR 0x09, CHR 0x0A, CHR 0x0D])
                  (dropWhile (\<lambda>c. c \<in> set c0_control_or_space) url0);
          (scheme, rest) = split_scheme url;
          netloc = (if take 2 rest = ''//''
                    then takeWhile (\<lambda>c. c \<notin> set ''/?#'') (drop 2 rest) else []);
          rest = (if take 2 rest = ''//''
                  then dropWhile (\<lambda>c. c \<notin> set ''/?#'') (drop 2 rest) else rest);
          rest = takeWhile (\<lambda>c. c \<noteq> CHR ''#'') rest;
          rest = takeWhile (\<lambda>c. c \<noteq> CHR ''?'') rest
      in if (CHR ''['' \<in> set netloc \<and> CHR '']'' \<notin> set netloc) \<or>
            (CHR '']'' \<in> set netloc \<and> CHR ''['' \<notin> set netloc) \<or>
            (netloc \<noteq> [] \<and> netloc_rejected netloc)
         then None
         else Some (if scheme \<in> set uses_params then drop_params rest else rest))"

text \<open>
  \<open>Path(p).name\<close> of \<open>pathlib\<close> on POSIX: the last component, where empty components and
  \<open>.\<close> do not count; the empty string when there is none.
\<close>

definition path_name :: "string \<Rightarrow> string" where
  "path_name p =
     (case rev (filter (\<lambda>s. s \<noteq> [] \<and> s \<noteq> ''.'') (split_on (\<lambda>c. c = CHR ''/'') p)) of
        [] \<Rightarrow> []
      | n # _ \<Rightarrow> n)"

text \<open>
  \<open>Path(name).suffix\<close> and \<open>Path(name).stem\<close> for a single component: the suffix starts at
  the last dot, unless that dot is the first or the last character of the name.
\<close>

definition path_suffix :: "string \<Rightarrow> string" where
  "path_suffix name =
     (let after_dot = rev (takeWhile (\<lambda>c. c \<noteq> CHR ''.'') (rev name)) in
      if CHR ''.'' \<in> set name \<and> after_dot \<noteq> [] \<and> Suc (length after_dot) < length name
      then CHR ''.'' # after_dot else [])"

definition path_stem :: "string \<Rightarrow> string" where
  "path_stem name = take (length name - length (path_suffix name)) name"

text \<open>\<open>str(index)\<close> for an index that is not negative.\<close>

function decimal :: "nat \<Rightarrow> string" where
  "decimal n =
     (if n < 10 then [''0123456789'' ! n]
      else decimal (n div 10) @ [''0123456789'' ! (n mod 10)])"
  by pat_completeness auto
termination
  by (relation "measure id") auto

text \<open>
  \<open>filename_from_url\<close> of \<open>download_gbif_mushroom_images.py\<close>; \<open>None\<close> is the \<open>ValueError\<close>
  of \<open>urlparse\<close>.
\<close>

definition filename_from_url :: "(string \<Rightarrow> bool) \<Rightarrow> string \<Rightarrow> nat \<Rightarrow> string option" where
  "filename_from_url netloc_rejected url index =
     (case url_path netloc_rejected url of
        None \<Rightarrow> None
      | Some p \<Rightarrow>
          (let name = path_name p in
           Some (if name = [] then ''image_'' @ decimal index @ ''.jpg'' else name)))"

text \<open>\<open>filename_from_url\<close> of \<open>download_species_images.py\<close>.\<close>

definition filename_from_url_checklist :: "(string \<Rightarrow> bool) \<Rightarrow> string \<Rightarrow> nat \<Rightarrow> string option" where
  "filename_from_url_checklist netloc_rejected url index =
     (case url_path netloc_rejected url of
        None \<Rightarrow> None
      | Some p \<Rightarrow>
          (let name = path_name p in
           Some (if name = [] then ''image_'' @ decimal index else name)))"

text \<open>
  The file name that the loop of \<open>save_images_for_species\<close> settles on for the URL at
  \<open>index\<close>, given the names used so far.
\<close>

definition choose_filename :: "(string \<Rightarrow> bool) \<Rightarrow> nat \<Rightarrow> string \<Rightarrow> string set \<Rightarrow> string option" where
  "choose_filename netloc_rejected index url used_names =
     (case filename_from_url netloc_rejected url index of
        None \<Rightarrow> None
      | Some filename \<Rightarrow>
          Some (if filename \<in> used_names then
                  (let stem = path_stem filename;
                       suffix = (if path_suffix filename \<noteq> [] then path_suffix filename
                                 else ''.jpg'')
                   in stem @ ''_'' @ decimal index @ suffix)
                else filename))"

text \<open>The same step of the loop in \<open>main\<close> of \<open>download_species_images.py\<close>.\<close>

definition choose_filename_checklist ::
  "(string \<Rightarrow> bool) \<Rightarrow> nat \<Rightarrow> string \<Rightarrow> string set \<Rightarrow> string option" where
  "choose_filename_checklist netloc_rejected index url existing_names =
     (case filename_from_url_checklist netloc_rejected url index of
        None \<Rightarrow> None
      | Some filename \<Rightarrow>
          Some (if filename \<in> existing_names then
                  (let stem = path_stem filename;
                       suffix = path_suffix filename
                   in stem @ ''_'' @ decimal index @ suffix)
                else filename))"

text \<open>
  The file names that the loop of \<open>save_images_for_species\<close> assigns to a list of URLs, in
  order; \<open>enumerate\<close> counts from \<open>index\<close>. The result is \<open>None\<close> when \<open>urlparse\<close> raises
  for one of the URLs.
\<close>

fun assigned_filenames ::
  "(string \<Rightarrow> bool) \<Rightarrow> nat \<Rightarrow> string list \<Rightarrow> string set \<Rightarrow> string list option" where
  "assigned_filenames netloc_rejected index [] used_names = Some []"
| "assigned_filenames netloc_rejected index (url # rest) used_names =
     (case choose_filename netloc_rejected index url used_names of
        None \<Rightarrow> None
      | Some filename \<Rightarrow>
          map_option ((#) filename)
            (assigned_filenames netloc_rejected (Suc index) rest (insert filename used_names)))"

text \<open>
  The file names that the loop of the checklist script assigns. An image is its \<open>uri\<close>, or
  \<open>None\<close> when the key is absent or \<open>null\<close>; an image without a URL is skipped, and still
  counted.
\<close>

fun assigned_filenames_checklist ::
  "(string \<Rightarrow> bool) \<Rightarrow> nat \<Rightarrow> string option list \<Rightarrow> string set \<Rightarrow> string list option" where
  "assigned_filenames_checklist netloc_rejected index [] existing_names = Some []"
| "assigned_filenames_checklist netloc_rejected index (img # rest) existing_names =
     (case img of
        None \<Rightarrow> assigned_filenames_checklist netloc_rejected (Suc index) rest existing_names
      | Some url \<Rightarrow>
          if url = [] then
            assigned_filenames_checklist netloc_rejected (Suc index) rest existing_names
          else
            (case choose_filename_checklist netloc_rejected index url existing_names of
               None \<Rightarrow> None
             | Some filename \<Rightarrow>
                 map_option ((#) filename)
                   (assigned_filenames_checklist netloc_rejected (Suc index) rest
                      (insert filename existing_names))))"

text \<open>A library whose further checks reject no network location.\<close>

definition no_further_checks :: "string \<Rightarrow> bool" where
  "no_further_checks netloc = False"

section \<open>The file system and the downloader\<close>

text \<open>
  A path is the list of its components, the empty list being the current directory. The file
  system is the set of directories and the contents of the files.
\<close>

type_synonym path = "string list"

record filesystem =
  dirs :: "path set"
  files :: "path \<rightharpoonup> string"

text \<open>
  What the scripts do not decide themselves is the platform's: the further checks of
  \<open>urlparse\<close>, and which calls of the file system fail during the run (a file in the place
  of a directory or a directory in the place of a file, a name that is too long, no
  permission, no space). The platform says for which directories \<open>mkdir\<close> fails and for
  which destinations \<open>write_bytes\<close> fails. Every such failure is an \<open>OSError\<close> that is not a
  \<open>URLError\<close>, so no clause of the scripts catches it.
\<close>

record platform =
  netloc_rejected :: "string \<Rightarrow> bool"
  mkdir_fails :: "path \<Rightarrow> bool"
  write_fails :: "path \<Rightarrow> bool"

text \<open>\<open>p / name\<close> for a name without a slash.\<close>

definition path_join :: "path \<Rightarrow> string \<Rightarrow> path" where
  "path_join p name = (if name = [] then p else p @ [name])"

text \<open>\<open>p.parent\<close>\<close>

definition parent :: "path \<Rightarrow> path" where
  "parent p = butlast p"

text \<open>
  \<open>d.mkdir(parents=True, exist_ok=True)\<close>: unless the call fails, the directory and all its
  ancestors exist afterwards.
\<close>

definition with_directories :: "path \<Rightarrow> filesystem \<Rightarrow> filesystem" where
  "with_directories d fs =
     fs\<lparr>dirs := dirs fs \<union> set (map (\<lambda>n. take n d) [0..<Suc (length d)])\<rparr>"

definition mkdir_parents :: "platform \<Rightarrow> path \<Rightarrow> filesystem \<Rightarrow> error + filesystem" where
  "mkdir_parents pf d fs =
     (if mkdir_fails pf d then Inl OtherError else Inr (with_directories d fs))"


text \<open>
  \<open>destination.write_bytes(data)\<close>. Two failures do not depend on the disk: a destination
  whose last component is \<open>..\<close> is a directory (\<open>IsADirectoryError\<close>), and a component with
  a NUL character is refused (\<open>ValueError\<close>).
\<close>

definition unwritable_name :: "string \<Rightarrow> bool" where
  "unwritable_name name = (name = ''..'' \<or> CHR 0x00 \<in> set name)"

definition write_bytes :: "platform \<Rightarrow> path \<Rightarrow> string \<Rightarrow> filesystem \<Rightarrow> error + filesystem" where
  "write_bytes pf destination data fs =
     (if list_ex unwritable_name destination \<or> write_fails pf destination then Inl OtherError
      else Inr (fs\<lparr>files := (files fs)(destination \<mapsto> data)\<rparr>))"

text \<open>
  \<open>download_image\<close> of \<open>download_gbif_mushroom_images.py\<close>. The second argument is
  \<open>fetch_bytes\<close> on the network: the bytes of the URL, or the exception raised.
\<close>

definition download_image ::
  "platform \<Rightarrow> (string \<Rightarrow> error + string) \<Rightarrow> string \<Rightarrow> path \<Rightarrow> filesystem \<Rightarrow>
   (error + unit) \<times> filesystem" where
  "download_image pf fetch_bytes url destination fs =
     (case mkdir_parents pf (parent destination) fs of
        Inl e \<Rightarrow> (Inl e, fs)
      | Inr fs1 \<Rightarrow>
          (case fetch_bytes url of
             Inl e \<Rightarrow> (Inl e, fs1)
           | Inr data \<Rightarrow>
               (case write_bytes pf destination data fs1 of
                  Inl e \<Rightarrow> (Inl e, fs1)
                | Inr fs2 \<Rightarrow> (Inr (), fs2))))"


text \<open>
  The download loop of \<open>save_images_for_species\<close>. The file name is worked out before the
  \<open>try\<close>, so the \<open>ValueError\<close> of \<open>urlparse\<close> leaves the loop. Of the exceptions of
  \<open>download_image\<close>, \<open>HTTPError\<close> and \<open>URLError\<close> are caught and the loop goes on; any other
  exception leaves the loop and the function.
\<close>

fun download_urls ::
  "platform \<Rightarrow> (string \<Rightarrow> error + string) \<Rightarrow> path \<Rightarrow> nat \<Rightarrow> string list \<Rightarrow> string set \<Rightarrow>
   filesystem \<Rightarrow> (error + unit) \<times> filesystem" where
  "download_urls pf fetch_bytes target_dir index [] used_names fs = (Inr (), fs)"
| "download_urls pf fetch_bytes target_dir index (url # rest) used_names fs =
     (case choose_filename (netloc_rejected pf) index url used_names of
        None \<Rightarrow> (Inl OtherError, fs)
      | Some filename \<Rightarrow>
          (let used_names = insert filename used_names;
               destination = path_join target_dir filename
           in case download_image pf fetch_bytes url destination fs of
                (Inl HTTPError, fs') \<Rightarrow>
                  download_urls pf fetch_bytes target_dir (Suc index) rest used_names fs'
              | (Inl URLError, fs') \<Rightarrow>
                  download_urls pf fetch_bytes target_dir (Suc index) rest used_names fs'
              | (Inl OtherError, fs') \<Rightarrow> (Inl OtherError, fs')
              | (Inr u, fs') \<Rightarrow>
                  download_urls pf fetch_bytes target_dir (Suc index) rest used_names fs'))"


section \<open>The GBIF script\<close>




record SpeciesMatch =
  key :: int
  scientific_name :: string











section \<open>The checklist script\<close>














section \<open>Predicates and example backends for the statements\<close>










text \<open>An empty disk, and a platform on which no call of the file system fails.\<close>

definition empty_fs :: filesystem where
  "empty_fs = \<lparr>dirs = {}, files = Map.empty\<rparr>"

definition plain_platform :: platform where
  "plain_platform =
     \<lparr>netloc_rejected = no_further_checks, mkdir_fails = (\<lambda>d. False),
      write_fails = (\<lambda>d. False)\<rparr>"







section \<open>Properties of the string helpers\<close>

lemma set_strip_chars_subset: "set (strip_chars p s) \<subseteq> set s"
  unfolding strip_chars_def
  by (metis set_dropWhileD set_rev subsetI)

lemma strip_subset: "set (strip s) \<subseteq> set s"
  unfolding strip_def by (rule set_strip_chars_subset)








lemma split1_head_no_sep: "sep \<notin> set (split1_head sep s)"
  unfolding split1_head_def by (metis (mono_tags, lifting) set_takeWhileD)

lemma set_remove_all_subset: "set (remove_all old s) \<subseteq> set s"
proof (induction old s rule: remove_all.induct)
  case (1 old)
  then show ?case by simp
next
  case (2 old c cs)
  show ?case
  proof (cases "old \<noteq> [] \<and> take (length old) (c # cs) = old")
    case True
    with 2 have "set (remove_all old (c # cs)) \<subseteq> set (drop (length old) (c # cs))"
      by simp
    also have "\<dots> \<subseteq> set (c # cs)"
      by (rule set_drop_subset)
    finally show ?thesis .
  next
    case False
    with 2 show ?thesis by auto
  qed
qed

lemma split_on_pieces_all: "\<forall>w \<in> set (split_on p s). set w \<subseteq> set s"
  by (induction s) (auto split: list.splits)

lemma split_on_pieces_subset: "w \<in> set (split_on p s) \<Longrightarrow> set w \<subseteq> set s"
  using split_on_pieces_all by blast

lemma lower_char_paren:
  "lower_char c = CHR ''('' \<longleftrightarrow> c = CHR ''(''"
  "lower_char c = CHR '')'' \<longleftrightarrow> c = CHR '')''"
  by (simp_all add: lower_char_def upper_case_chars_def lower_case_chars_def)

lemma paren_in_lower:
  "CHR ''('' \<in> set (lower s) \<longleftrightarrow> CHR ''('' \<in> set s"
  "CHR '')'' \<in> set (lower s) \<longleftrightarrow> CHR '')'' \<in> set s"
  by (metis (no_types) image_iff lower_char_paren(1) lower_def set_map)
    (metis (no_types) image_iff lower_char_paren(2) lower_def set_map)

section \<open>Properties of the candidate expander\<close>





lemma dedup_ordered_checklist_eq: "dedup_ordered_checklist seen cs = dedup_ordered seen cs"
  by (induction cs arbitrary: seen) (simp_all add: Let_def)

lemma parse_candidate_names_checklist_eq:
  "parse_candidate_names_checklist lbl = parse_candidate_names lbl"
  by (simp add: parse_candidate_names_checklist_def parse_candidate_names_def
      collect_candidates_def dedup_ordered_checklist_eq Let_def)

lemma dedup_ordered_snoc:
  "dedup_ordered seen (xs @ [r]) =
     dedup_ordered seen xs @ (if lower r \<in> seen \<union> lower ` set xs then [] else [r])"
  by (induction xs arbitrary: seen) (auto simp: Let_def)

lemma set_dedup_ordered_subset: "set (dedup_ordered seen xs) \<subseteq> set xs"
  by (induction xs arbitrary: seen) (auto simp: Let_def)

text \<open>
  No candidate taken from a label with a parenthetical clause holds both an opening and a
  closing parenthesis: the prefix has no \<open>(\<close>, the pieces of the clause have no \<open>)\<close>.
\<close>

lemma paren_candidates_lack_paren:
  assumes "x \<in> set ((if strip (split1_head (CHR ''('') r) \<noteq> []
                      then [strip (split1_head (CHR ''('') r)] else []) @
               filter (\<lambda>part. part \<noteq> [])
                 (map strip (split_on is_separator
                    (remove_all ''syn.'' (split1_head (CHR '')'') t)))))"
  shows "CHR ''('' \<notin> set x \<or> CHR '')'' \<notin> set x"
proof -
  from assms consider
      (base) "x = strip (split1_head (CHR ''('') r)"
    | (part) w where "x = strip w"
        "w \<in> set (split_on is_separator (remove_all ''syn.'' (split1_head (CHR '')'') t)))"
    by (auto split: if_splits)
  then show ?thesis
  proof cases
    case base
    then show ?thesis
      using strip_subset split1_head_no_sep by blast
  next
    case part
    have "set x \<subseteq> set (split1_head (CHR '')'') t)"
      using part strip_subset split_on_pieces_subset set_remove_all_subset
      by (metis (no_types, lifting) order_trans)
    then show ?thesis
      using split1_head_no_sep by blast
  qed
qed

lemma collect_candidates_shape:
  "\<exists>cs. collect_candidates r = cs @ [r] \<and> lower r \<notin> lower ` set cs"
proof (cases "CHR ''('' \<in> set r \<and> CHR '')'' \<in> set r")
  case True
  define t where "t = (case split1_tail (CHR ''('') r of Some t \<Rightarrow> t | None \<Rightarrow> [])"
  define cs where "cs =
     (if strip (split1_head (CHR ''('') r) \<noteq> [] then [strip (split1_head (CHR ''('') r)] else []) @
     filter (\<lambda>part. part \<noteq> [])
       (map strip (split_on is_separator (remove_all ''syn.'' (split1_head (CHR '')'') t))))"
  have lack: "CHR ''('' \<notin> set x \<or> CHR '')'' \<notin> set x" if "x \<in> set cs" for x
    using that unfolding cs_def by (rule paren_candidates_lack_paren)
  have "lower r \<noteq> lower x" if "x \<in> set cs" for x
    using lack [OF that] True paren_in_lower by metis
  then have keys: "lower r \<notin> lower ` set cs" by blast
  then have "r \<notin> set cs" by blast
  then have "collect_candidates r = cs @ [r]"
    using True by (simp add: collect_candidates_def Let_def cs_def t_def)
  with keys show ?thesis by blast
next
  case False
  then have "collect_candidates r = [] @ [r]"
    by (auto simp: collect_candidates_def)
  then show ?thesis by (metis empty_iff image_empty list.set(1))
qed

lemma parse_candidate_names_shape:
  "\<exists>cs. parse_candidate_names lbl = cs @ [strip lbl] \<and> lower (strip lbl) \<notin> lower ` set cs"
proof -
  obtain cs where cs: "collect_candidates (strip lbl) = cs @ [strip lbl]"
      "lower (strip lbl) \<notin> lower ` set cs"
    using collect_candidates_shape by blast
  have "parse_candidate_names lbl = dedup_ordered {} cs @ [strip lbl]"
    using cs by (simp add: parse_candidate_names_def dedup_ordered_snoc)
  moreover have "lower (strip lbl) \<notin> lower ` set (dedup_ordered {} cs)"
    using cs(2) set_dedup_ordered_subset by blast
  ultimately show ?thesis by blast
qed




text \<open>
  C3, as the code has it: in both scripts the label with its leading and trailing whitespace
  removed is the last candidate, and no candidate before it equals it up to case.
\<close>

theorem parse_candidate_names_stripped_label_last:
  "(\<exists>cs. parse_candidate_names lbl = cs @ [strip lbl] \<and>
          lower (strip lbl) \<notin> lower ` set cs) \<and>
   (\<exists>cs. parse_candidate_names_checklist lbl = cs @ [strip lbl] \<and>
          lower (strip lbl) \<notin> lower ` set cs)"
  unfolding parse_candidate_names_checklist_eq
  using parse_candidate_names_shape [of lbl] by simp

text \<open>
  C3 as stated fails: a label that starts with a space is not in its own candidate list.
\<close>

theorem parse_candidate_names_raw_label_counterexample:
  "parse_candidate_names '' a'' = [''a''] \<and>
   '' a'' \<notin> set (parse_candidate_names '' a'')"
proof -
  have "parse_candidate_names '' a'' = [''a'']" by code_simp
  then show ?thesis by simp
qed

text \<open>
  C5: the label \<open>Amanita excelsa (syn. Amanita spissa)\<close> expands, in both scripts, to the
  primary name, the synonym and the full label, in that order.
\<close>

theorem parse_candidate_names_amanita_excelsa:
  "parse_candidate_names ''Amanita excelsa (syn. Amanita spissa)'' =
     [''Amanita excelsa'', ''Amanita spissa'', ''Amanita excelsa (syn. Amanita spissa)''] \<and>
   parse_candidate_names_checklist ''Amanita excelsa (syn. Amanita spissa)'' =
     [''Amanita excelsa'', ''Amanita spissa'', ''Amanita excelsa (syn. Amanita spissa)'']"
  by code_simp


text \<open>
  C8 as stated fails in its second half: a label that ends with a space is not kept as a
  candidate, only its stripped form is.
\<close>

theorem parse_candidate_names_fallback_counterexample:
  "parse_candidate_names ''Amanita muscaria '' = [''Amanita muscaria''] \<and>
   ''Amanita muscaria '' \<notin> set (parse_candidate_names ''Amanita muscaria '')"
proof -
  have "parse_candidate_names ''Amanita muscaria '' = [''Amanita muscaria'']" by code_simp
  then show ?thesis by simp
qed

text \<open>
  C10: the candidate expanders of the two scripts are the same function.
\<close>

theorem parse_candidate_names_variants_equal:
  "parse_candidate_names_checklist lbl = parse_candidate_names lbl"
  by (rule parse_candidate_names_checklist_eq)
section \<open>Properties of \<open>slugify\<close>\<close>

lemma lower_char_not_upper: "c \<notin> set upper_case_chars \<Longrightarrow> lower_char c = c"
proof -
  assume "c \<notin> set upper_case_chars"
  moreover have "length upper_case_chars = length lower_case_chars"
    by (simp add: upper_case_chars_def lower_case_chars_def)
  ultimately have "map_of (zip upper_case_chars lower_case_chars) c = None"
    by (simp add: map_of_zip_is_None)
  then show ?thesis by (simp add: lower_char_def)
qed

lemma slug_char_not_upper: "is_slug_char c \<Longrightarrow> c \<notin> set upper_case_chars"
  unfolding is_slug_char_def upper_case_chars_def by (elim disjE rev_mp[of "c \<in> _"]) auto

lemma lower_char_slug: "is_slug_char c \<Longrightarrow> lower_char c = c"
  by (rule lower_char_not_upper) (rule slug_char_not_upper)

lemma lower_char_underscore: "lower_char (CHR ''_'') = CHR ''_''"
  by (rule lower_char_not_upper) (simp add: upper_case_chars_def)

lemma underscore_not_slug: "\<not> is_slug_char (CHR ''_'')"
  by (simp add: is_slug_char_def)

text \<open>What \<open>strip\<close> leaves has no strippable character at either end.\<close>

lemma strip_chars_last: "strip_chars p s \<noteq> [] \<Longrightarrow> \<not> p (last (strip_chars p s))"
  unfolding strip_chars_def
  by (metis hd_dropWhile last_rev rev_is_Nil_conv)

lemma last_dropWhile_keep: "dropWhile p xs \<noteq> [] \<Longrightarrow> last (dropWhile p xs) = last xs"
  by (induction xs) (auto split: if_splits)

lemma strip_chars_hd: "strip_chars p s \<noteq> [] \<Longrightarrow> \<not> p (hd (strip_chars p s))"
proof -
  assume ne: "strip_chars p s \<noteq> []"
  let ?t = "dropWhile p s"
  from ne have d: "dropWhile p (rev ?t) \<noteq> []" by (simp add: strip_chars_def)
  then have t: "?t \<noteq> []" by (cases "?t") simp_all
  have "hd (strip_chars p s) = last (dropWhile p (rev ?t))"
    using d by (simp add: strip_chars_def hd_rev)
  also have "\<dots> = last (rev ?t)" using d by (rule last_dropWhile_keep)
  also have "\<dots> = hd ?t" using t by (simp add: last_rev)
  finally show ?thesis using t hd_dropWhile by metis
qed

lemma strip_chars_fixed:
  assumes "s = [] \<or> (\<not> p (hd s) \<and> \<not> p (last s))"
  shows "strip_chars p s = s"
proof (cases s)
  case Nil
  then show ?thesis by (simp add: strip_chars_def)
next
  case (Cons a as)
  with assms have h: "\<not> p a" and l: "\<not> p (last s)" by auto
  from h Cons have "dropWhile p s = s" by simp
  moreover have "dropWhile p (rev s) = rev s"
    using l Cons by (metis dropWhile_eq_self_iff hd_rev list.distinct(1) rev_is_Nil_conv)
  ultimately show ?thesis by (simp add: strip_chars_def)
qed

lemma strip_chars_idem: "strip_chars p (strip_chars p s) = strip_chars p s"
  by (rule strip_chars_fixed) (use strip_chars_hd strip_chars_last in blast)

lemma strip_chars_prefix_suffix: "\<exists>pre suf. s = pre @ strip_chars p s @ suf"
proof -
  have "s = takeWhile p s @ dropWhile p s" by simp
  moreover have "rev (dropWhile p s) = takeWhile p (rev (dropWhile p s)) @ dropWhile p (rev (dropWhile p s))"
    by simp
  then have "dropWhile p s = strip_chars p s @ rev (takeWhile p (rev (dropWhile p s)))"
    unfolding strip_chars_def by (metis rev_append rev_rev_ident)
  ultimately show ?thesis by metis
qed

text \<open>The substitution produces the normal form, and fixes every string in it.\<close>

lemma single_underscores_tl: "single_underscores (c # cs) \<Longrightarrow> single_underscores cs"
  by (simp split: if_splits)

lemma single_underscores_suffix: "single_underscores (xs @ ys) \<Longrightarrow> single_underscores ys"
  by (induction xs) (auto split: if_splits)

lemma single_underscores_prefix: "single_underscores (xs @ ys) \<Longrightarrow> single_underscores xs"
  by (induction xs) (auto split: if_splits list.splits)

lemma single_underscores_strip:
  "single_underscores s \<Longrightarrow> single_underscores (strip_chars p s)"
  using strip_chars_prefix_suffix [of s p] single_underscores_prefix single_underscores_suffix
  by metis

lemma sub_non_slug_head:
  "sub_non_slug s = [] \<or> is_slug_char (hd (sub_non_slug s)) \<or> (s \<noteq> [] \<and> \<not> is_slug_char (hd s))"
  by (cases s) auto

lemma single_underscores_sub: "single_underscores (sub_non_slug s)"
proof (induction s rule: sub_non_slug.induct)
  case 1
  then show ?case by simp
next
  case (2 c cs)
  show ?case
  proof (cases "is_slug_char c")
    case True
    with 2 show ?thesis by simp
  next
    case False
    let ?r = "dropWhile (\<lambda>d. \<not> is_slug_char d) cs"
    have "?r = [] \<or> is_slug_char (hd ?r)"
      using hd_dropWhile [of "\<lambda>d. \<not> is_slug_char d" cs] by auto
    then have "sub_non_slug ?r = [] \<or> is_slug_char (hd (sub_non_slug ?r))"
      using sub_non_slug_head [of ?r] by auto
    then have "case sub_non_slug ?r of [] \<Rightarrow> True | d # _ \<Rightarrow> is_slug_char d"
      by (auto split: list.splits)
    with False 2 show ?thesis by simp
  qed
qed

lemma sub_non_slug_fixed: "single_underscores s \<Longrightarrow> sub_non_slug s = s"
proof (induction s)
  case Nil
  then show ?case by simp
next
  case (Cons c cs)
  show ?case
  proof (cases "is_slug_char c")
    case True
    with Cons show ?thesis by simp
  next
    case False
    with Cons.prems have "dropWhile (\<lambda>d. \<not> is_slug_char d) cs = cs"
      by (cases cs) auto
    with False Cons show ?thesis by simp
  qed
qed

lemma lower_fixed: "single_underscores s \<Longrightarrow> lower s = s"
  by (induction s) (auto simp: lower_def lower_char_slug lower_char_underscore split: if_splits)

lemma slug_pattern_from_normal:
  "single_underscores u \<Longrightarrow> u \<noteq> [] \<Longrightarrow> last u \<noteq> CHR ''_'' \<Longrightarrow> b \<or> hd u \<noteq> CHR ''_''
     \<Longrightarrow> slug_pattern_from b u"
proof (induction u arbitrary: b)
  case Nil
  then show ?case by simp
next
  case (Cons c cs)
  show ?case
  proof (cases "is_slug_char c")
    case True
    show ?thesis
    proof (cases cs)
      case Nil
      with True show ?thesis by simp
    next
      case (Cons d ds)
      have "slug_pattern_from True cs"
        using Cons.prems Cons True \<open>cs = d # ds\<close> by (intro Cons.IH) auto
      with True show ?thesis by simp
    qed
  next
    case False
    with Cons.prems have c: "c = CHR ''_''" and b: b by auto
    from Cons.prems c have ne: "cs \<noteq> []" by auto
    with Cons.prems False have hd: "is_slug_char (hd cs)" by (cases cs) auto
    have "slug_pattern_from False cs"
      using Cons.prems ne hd False underscore_not_slug
      by (intro Cons.IH) (auto split: if_splits)
    with False c b show ?thesis by simp
  qed
qed

lemma slugify_normal: "single_underscores (slugify x)"
  unfolding slugify_def by (rule single_underscores_strip) (rule single_underscores_sub)

lemma slugify_idem: "slugify (slugify x) = slugify x"
proof -
  have "lower (slugify x) = slugify x"
    by (rule lower_fixed) (rule slugify_normal)
  moreover have "sub_non_slug (slugify x) = slugify x"
    by (rule sub_non_slug_fixed) (rule slugify_normal)
  moreover have "strip_chars (\<lambda>c. c = CHR ''_'') (slugify x) = slugify x"
    unfolding slugify_def by (rule strip_chars_idem)
  ultimately show ?thesis
    by (simp add: slugify_def)
qed

lemma slugify_pattern: "matches_slug_pattern (slugify x) \<or> slugify x = []"
proof (cases "slugify x = []")
  case True
  then show ?thesis by simp
next
  case False
  have "last (slugify x) \<noteq> CHR ''_''" "hd (slugify x) \<noteq> CHR ''_''"
    using False strip_chars_last [of "\<lambda>c. c = CHR ''_''"] strip_chars_hd [of "\<lambda>c. c = CHR ''_''"]
    unfolding slugify_def by blast+
  then have "slug_pattern_from False (slugify x)"
    using False slugify_normal by (intro slug_pattern_from_normal) auto
  then show ?thesis by (simp add: matches_slug_pattern_def)
qed

text \<open>The automaton accepts exactly the words of the grammar.\<close>

lemma slug_pattern_from_run:
  "list_all is_slug_char w \<Longrightarrow> w \<noteq> [] \<Longrightarrow>
   slug_pattern_from b (w @ r) = slug_pattern_from True r"
proof (induction w arbitrary: b)
  case Nil
  then show ?case by simp
next
  case (Cons c w)
  then show ?case by (cases w) auto
qed

lemma slug_word_accepted: "slug_word s \<Longrightarrow> slug_pattern_from False s"
proof (induction rule: slug_word.induct)
  case (run w)
  then show ?case using slug_pattern_from_run [of w False "[]"] by simp
next
  case (more w v)
  then show ?case
    using slug_pattern_from_run [of w False "CHR ''_'' # v"] underscore_not_slug by simp
qed

lemma slug_pattern_from_shape:
  "slug_pattern_from b s \<Longrightarrow>
   (\<exists>w. list_all is_slug_char w \<and> (b \<or> w \<noteq> []) \<and>
        (s = w \<or> (\<exists>v. s = w @ CHR ''_'' # v \<and> slug_word v)))"
proof (induction s arbitrary: b)
  case Nil
  then show ?case by simp
next
  case (Cons c cs)
  show ?case
  proof (cases "is_slug_char c")
    case True
    with Cons.prems have "slug_pattern_from True cs" by simp
    from Cons.IH [OF this] obtain w where w: "list_all is_slug_char w"
        "cs = w \<or> (\<exists>v. cs = w @ CHR ''_'' # v \<and> slug_word v)"
      by blast
    have "list_all is_slug_char (c # w)" "c # w \<noteq> []" using True w(1) by simp_all
    moreover have "c # cs = c # w \<or> (\<exists>v. c # cs = (c # w) @ CHR ''_'' # v \<and> slug_word v)"
      using w(2) by auto
    ultimately show ?thesis by blast
  next
    case False
    with Cons.prems have c: "c = CHR ''_''" and b: b and rest: "slug_pattern_from False cs"
      by simp_all
    from Cons.IH [OF rest] obtain w where w: "list_all is_slug_char w" "w \<noteq> []"
        "cs = w \<or> (\<exists>v. cs = w @ CHR ''_'' # v \<and> slug_word v)"
      by blast
    then have "slug_word cs" by (auto intro: slug_word.intros)
    then have "\<exists>v. c # cs = [] @ CHR ''_'' # v \<and> slug_word v" using c by simp
    moreover have "list_all is_slug_char []" by simp
    ultimately show ?thesis using b by blast
  qed
qed

lemma matches_slug_pattern_iff: "matches_slug_pattern s \<longleftrightarrow> slug_word s"
proof
  assume "matches_slug_pattern s"
  then have "slug_pattern_from False s" by (simp add: matches_slug_pattern_def)
  from slug_pattern_from_shape [OF this] show "slug_word s"
    by (auto intro: slug_word.intros)
next
  assume "slug_word s"
  then show "matches_slug_pattern s"
    by (simp add: matches_slug_pattern_def slug_word_accepted)
qed

lemma slugify_checklist_eq: "slugify_checklist x = slugify x"
  by (simp add: slugify_checklist_def slugify_def)

text \<open>
  C7: in both scripts \<open>slugify\<close> is idempotent, and its result either matches
  \<open>^[a-z0-9]+(_[a-z0-9]+)*$\<close> or is empty.
\<close>

theorem slugify_idempotent_and_pattern:
  "slugify (slugify x) = slugify x \<and>
   (matches_slug_pattern (slugify x) \<or> slugify x = []) \<and>
   slugify_checklist (slugify_checklist x) = slugify_checklist x \<and>
   (matches_slug_pattern (slugify_checklist x) \<or> slugify_checklist x = [])"
  unfolding slugify_checklist_eq
  using slugify_idem [of x] slugify_pattern [of x] by simp
section \<open>Properties of the media lister\<close>

lemma first_occurrences_append:
  "first_occurrences seen (xs @ ys) =
     first_occurrences seen xs @ first_occurrences (seen \<union> set xs) ys"
  by (induction xs arbitrary: seen) (auto simp: insert_absorb)

lemma set_first_occurrences: "set (first_occurrences seen xs) = set xs - seen"
  by (induction xs arbitrary: seen) auto

lemma distinct_first_occurrences: "distinct (first_occurrences seen xs)"
  by (induction xs arbitrary: seen) (auto simp: set_first_occurrences)

lemma distinct_append_first_occurrences:
  "distinct urls \<Longrightarrow> distinct (urls @ first_occurrences (set urls) xs)"
  by (auto simp: distinct_first_occurrences set_first_occurrences)

lemma first_occurrences_start:
  "first_occurrences {} (xs @ ys) =
     first_occurrences {} xs @ first_occurrences (set (first_occurrences {} xs)) ys"
  by (simp add: first_occurrences_append set_first_occurrences)

text \<open>The loops over one page collect the first \<open>limit\<close> URLs, new ones in page order.\<close>

lemma scan_media_collects:
  "int (length urls) < limit \<Longrightarrow>
   scan_media limit ms (urls, set urls) =
     (take (nat limit) (urls @ first_occurrences (set urls) (List.map_filter media_url ms)),
      set (take (nat limit) (urls @ first_occurrences (set urls) (List.map_filter media_url ms))))"
proof (induction ms arbitrary: urls)
  case Nil
  then show ?case by (simp add: map_filter_simps)
next
  case (Cons m ms)
  show ?case
  proof (cases "media_url m")
    case None
    with Cons show ?thesis by (simp add: map_filter_simps)
  next
    case (Some url)
    show ?thesis
    proof (cases "url \<in> set urls")
      case True
      with Some Cons show ?thesis by (simp add: map_filter_simps)
    next
      case False
      show ?thesis
      proof (cases "int (length (urls @ [url])) \<ge> limit")
        case True
        with Cons.prems have "nat limit = Suc (length urls)" by simp
        with Some False True show ?thesis by (simp add: map_filter_simps)
      next
        case stay: False
        then have "int (length (urls @ [url])) < limit" by simp
        from Cons.IH [OF this] Some False stay show ?thesis
          by (simp add: map_filter_simps)
      qed
    qed
  qed
qed

lemma take_append_full: "n \<le> length (take n xs) \<Longrightarrow> take n (xs @ ys) = take n xs"
  by simp

lemma take_short: "length (take n xs) < n \<Longrightarrow> take n xs = xs"
  by simp

lemma scan_results_collects:
  "int (length urls) < limit \<Longrightarrow>
   scan_results limit rs (urls, set urls) =
     (take (nat limit) (urls @ first_occurrences (set urls) (concat (map record_urls rs))),
      set (take (nat limit) (urls @ first_occurrences (set urls) (concat (map record_urls rs)))))"
proof (induction rs arbitrary: urls)
  case Nil
  then show ?case by simp
next
  case (Cons r rs)
  define n where "n = nat limit"
  define full where "full = urls @ first_occurrences (set urls) (record_urls r)"
  define u1 where "u1 = take n full"
  define rest where "rest = first_occurrences (set full) (concat (map record_urls rs))"
  define goal where
    "goal = take n (urls @ first_occurrences (set urls) (concat (map record_urls (r # rs))))"
  have step: "scan_media limit (case media r of Some ms \<Rightarrow> ms | None \<Rightarrow> []) (urls, set urls) =
              (u1, set u1)"
    using scan_media_collects [OF Cons.prems, of "case media r of Some ms \<Rightarrow> ms | None \<Rightarrow> []"]
    unfolding u1_def full_def n_def record_urls_def .
  have split: "goal = take n (full @ rest)"
    unfolding goal_def full_def rest_def
    by (simp add: first_occurrences_append set_first_occurrences Un_commute)
  have unfold: "scan_results limit (r # rs) (urls, set urls) =
      (if int (length u1) \<ge> limit then (u1, set u1) else scan_results limit rs (u1, set u1))"
    using step by (simp add: Let_def)
  have "scan_results limit (r # rs) (urls, set urls) = (goal, set goal)"
  proof (cases "int (length u1) \<ge> limit")
    case True
    then have "n \<le> length (take n full)" unfolding u1_def n_def by linarith
    then have "goal = u1"
      unfolding split u1_def by (rule take_append_full)
    with unfold True show ?thesis by simp
  next
    case False
    then have "length (take n full) < n" unfolding u1_def n_def by linarith
    then have u1: "u1 = full"
      unfolding u1_def by (rule take_short)
    from False have "int (length u1) < limit" by simp
    from Cons.IH [OF this] have
      "scan_results limit rs (u1, set u1) =
         (take n (full @ rest), set (take n (full @ rest)))"
      unfolding u1 rest_def n_def .
    with unfold False split show ?thesis by simp
  qed
  then show ?case unfolding goal_def n_def .
qed

lemma page_urls_records:
  "page_urls payload = concat (map record_urls (case results payload of Some rs \<Rightarrow> rs | None \<Rightarrow> []))"
  by (simp add: page_urls_def record_urls_def [abs_def])

lemma requested_urls_snoc:
  "search taxon_key offset = Inr payload \<Longrightarrow>
   requested_urls search taxon_key (offsets @ [offset]) =
     requested_urls search taxon_key offsets @ page_urls payload"
  by (simp add: requested_urls_def)

lemma fetch_media_loop_inv:
  "lister_inv search taxon_key limit urls requested \<Longrightarrow>
   fetch_media_loop fuel search taxon_key limit offset (urls, set urls) requested =
     Some (Inr (urls', requested')) \<Longrightarrow>
   lister_inv search taxon_key limit urls' requested'"
proof (induction fuel arbitrary: offset urls requested)
  case 0
  then show ?case by (auto split: if_splits)
next
  case (Suc fuel)
  let ?n = "nat limit"
  let ?R = "requested_urls search taxon_key"
  show ?case
  proof (cases "int (length urls) < limit")
    case False
    with Suc.prems show ?thesis by simp
  next
    case True
    then have short: "length urls < ?n" by linarith
    from Suc.prems(1) have urls: "urls = take ?n (first_occurrences {} (?R requested))"
      by (simp add: lister_inv_def)
    with short have all: "urls = first_occurrences {} (?R requested)"
      by (metis take_short)
    from Suc.prems(2) True obtain payload where payload: "search taxon_key offset = Inr payload"
      by (cases "search taxon_key offset") auto
    let ?rs = "case results payload of Some rs \<Rightarrow> rs | None \<Rightarrow> []"
    let ?u = "take ?n (urls @ first_occurrences (set urls) (page_urls payload))"
    have scan: "scan_results limit ?rs (urls, set urls) = (?u, set ?u)"
      using scan_results_collects [OF True] by (simp add: page_urls_records)
    have "?u = take ?n (first_occurrences {} (?R requested @ page_urls payload))"
      using all first_occurrences_start [of "?R requested" "page_urls payload"] by simp
    then have "?u = take ?n (first_occurrences {} (?R (requested @ [offset])))"
      using payload by (simp add: requested_urls_snoc)
    moreover have "length (first_occurrences {} (?R (butlast (requested @ [offset])))) < ?n"
      using all short by simp
    ultimately have inv': "lister_inv search taxon_key limit ?u (requested @ [offset])"
      by (simp add: lister_inv_def)
    show ?thesis
    proof (cases "?rs = []")
      case True
      then have "page_urls payload = []" by (simp add: page_urls_records)
      then have "?u = urls" using short by simp
      moreover from Suc.prems(2) \<open>int (length urls) < limit\<close> payload True
      have "urls' = urls" "requested' = requested @ [offset]" by auto
      ultimately show ?thesis using inv' by simp
    next
      case nonempty: False
      show ?thesis
      proof (cases "count payload")
        case Null
        with Suc.prems(2) \<open>int (length urls) < limit\<close> payload nonempty show ?thesis
          by (simp add: Let_def)
      next
        case Absent
        with Suc.prems(2) \<open>int (length urls) < limit\<close> payload nonempty scan
        have "urls' = ?u" "requested' = requested @ [offset]" by (auto simp: Let_def)
        then show ?thesis using inv' by simp
      next
        case (Value c)
        show ?thesis
        proof (cases "int (offset + length ?rs) \<ge> c")
          case True
          with Suc.prems(2) \<open>int (length urls) < limit\<close> payload nonempty scan Value
          have "urls' = ?u" "requested' = requested @ [offset]" by (auto simp: Let_def)
          then show ?thesis using inv' by simp
        next
          case False
          with Suc.prems(2) \<open>int (length urls) < limit\<close> payload nonempty scan Value
          have "fetch_media_loop fuel search taxon_key limit (offset + length ?rs) (?u, set ?u)
                  (requested @ [offset]) = Some (Inr (urls', requested'))"
            by (auto simp: Let_def)
          from Suc.IH [OF inv' this] show ?thesis .
        qed
      qed
    qed
  qed
qed

text \<open>
  C4: for a target count \<open>limit\<close> of at least 0, the list that \<open>fetch_media_urls\<close> returns
  has at most \<open>limit\<close> elements and no element twice. It holds the first \<open>limit\<close> distinct URLs
  of the requested pages, in page order, so nothing of a page is collected beyond the
  \<open>limit\<close>-th URL; and the last request was made while fewer than \<open>limit\<close> distinct URLs had
  been returned, so no page is requested once \<open>limit\<close> URLs are gathered.
\<close>

theorem fetch_media_urls_bounded_distinct:
  assumes "0 \<le> limit"
    and "fetch_media_urls fuel search taxon_key limit = Some (Inr (urls, requested))"
  shows "int (length urls) \<le> limit \<and> distinct urls \<and>
         urls = take (nat limit) (first_occurrences {} (requested_urls search taxon_key requested)) \<and>
         (requested = [] \<or>
          length (first_occurrences {} (requested_urls search taxon_key (butlast requested))) < nat limit)"
proof -
  have "lister_inv search taxon_key limit [] []"
    by (simp add: lister_inv_def requested_urls_def)
  moreover have "fetch_media_loop fuel search taxon_key limit 0 ([], set []) [] =
      Some (Inr (urls, requested))"
    using assms(2) by (simp add: fetch_media_urls_def)
  ultimately have inv: "lister_inv search taxon_key limit urls requested"
    by (rule fetch_media_loop_inv)
  then have eq: "urls = take (nat limit) (first_occurrences {} (requested_urls search taxon_key requested))"
    by (simp add: lister_inv_def)
  have "length urls \<le> nat limit" by (subst eq) simp
  with assms(1) have "int (length urls) \<le> limit" by linarith
  moreover have "distinct urls"
    by (subst eq) (simp add: distinct_first_occurrences)
  ultimately show ?thesis using inv by (simp add: lister_inv_def)
qed

theorem fetch_media_urls_bounded_distinct_witness:
  "(0::int) \<le> 3 \<and>
   fetch_media_urls 5 example_search 42 3 =
     Some (Inr ([''https://example.org/media/u1.jpg'', ''https://example.org/media/u2.jpg'',
                 ''https://example.org/media/u3.jpg''], [0])) \<and>
   int (length [''https://example.org/media/u1.jpg'', ''https://example.org/media/u2.jpg'',
                ''https://example.org/media/u3.jpg'']) \<le> 3 \<and>
   distinct [''https://example.org/media/u1.jpg'', ''https://example.org/media/u2.jpg'',
             ''https://example.org/media/u3.jpg''] \<and>
   [''https://example.org/media/u1.jpg'', ''https://example.org/media/u2.jpg'',
    ''https://example.org/media/u3.jpg''] =
     take (nat 3) (first_occurrences {} (requested_urls example_search 42 [0]))"
proof -
  have a: "(0::int) \<le> 3" by simp
  have b: "fetch_media_urls 5 example_search 42 3 =
     Some (Inr ([''https://example.org/media/u1.jpg'', ''https://example.org/media/u2.jpg'',
                 ''https://example.org/media/u3.jpg''], [0]))"
    by code_simp
  from fetch_media_urls_bounded_distinct [OF a b] a b show ?thesis by blast
qed

text \<open>
  The lister returns whenever the counts that the backend reports are bounded: the offset
  grows with every page, so \<open>bound + 1\<close> requests are enough.
\<close>

lemma fetch_media_loop_returns:
  assumes bounded: "\<And>offset payload c. search taxon_key offset = Inr payload \<Longrightarrow>
             count payload = Value c \<Longrightarrow> c \<le> int bound"
  shows "0 < fuel \<Longrightarrow> bound < fuel + offset \<Longrightarrow>
         fetch_media_loop fuel search taxon_key limit offset st requested \<noteq> None"
proof (induction fuel arbitrary: offset st requested)
  case 0
  then show ?case by simp
next
  case (Suc fuel)
  obtain urls seen where st: "st = (urls, seen)" by (cases st)
  show ?case
  proof (cases "search taxon_key offset")
    case (Inl e)
    then show ?thesis by (simp add: st)
  next
    case (Inr payload)
    let ?rs = "case results payload of Some rs \<Rightarrow> rs | None \<Rightarrow> []"
    show ?thesis
    proof (cases "count payload")
      case Absent
      with Inr show ?thesis by (simp add: st Let_def)
    next
      case Null
      with Inr show ?thesis by (simp add: st Let_def)
    next
      case (Value c)
      have c: "c \<le> int bound" using bounded [OF Inr Value] .
      show ?thesis
      proof (cases "int (length urls) < limit \<and> ?rs \<noteq> [] \<and> int (offset + length ?rs) < c")
        case False
        then show ?thesis using Inr Value by (auto simp: st Let_def)
      next
        case True
        then have "0 < length ?rs" by simp
        with True c Suc.prems have "0 < fuel" "bound < fuel + (offset + length ?rs)"
          by linarith+
        from Suc.IH [OF this]
        have "fetch_media_loop fuel search taxon_key limit (offset + length ?rs)
                (scan_results limit ?rs (urls, seen)) (requested @ [offset]) \<noteq> None" .
        with True Inr Value show ?thesis by (simp add: st Let_def)
      qed
    qed
  qed
qed

lemma fetch_media_urls_returns:
  assumes "\<And>offset payload c. search taxon_key offset = Inr payload \<Longrightarrow>
             count payload = Value c \<Longrightarrow> c \<le> int bound"
  shows "fetch_media_urls (Suc bound) search taxon_key limit \<noteq> None"
  unfolding fetch_media_urls_def
  by (rule fetch_media_loop_returns [OF assms]) simp_all
section \<open>Properties of the downloader\<close>

















text \<open>
  C1 fails on the code: of three URLs with the last segments \<open>a_3.jpg\<close>, \<open>a.jpg\<close> and
  \<open>a.jpg\<close>, the third collides with the second and is renamed to \<open>a_3.jpg\<close>, the name of
  the first. Both scripts assign the same name twice, and the download of the third image
  overwrites the first.
\<close>

theorem assigned_filenames_collide:
  "assigned_filenames no_further_checks 1
     [''http://h/x/a_3.jpg'', ''http://h/y/a.jpg'', ''http://h/z/a.jpg''] {} =
     Some [''a_3.jpg'', ''a.jpg'', ''a_3.jpg''] \<and>
   assigned_filenames_checklist no_further_checks 1
     [Some ''http://h/x/a_3.jpg'', Some ''http://h/y/a.jpg'', Some ''http://h/z/a.jpg''] {} =
     Some [''a_3.jpg'', ''a.jpg'', ''a_3.jpg''] \<and>
   files (snd (download_urls plain_platform Inr [''gbif_images'', ''amanita''] 1
                 [''http://h/x/a_3.jpg'', ''http://h/y/a.jpg'', ''http://h/z/a.jpg''] {} empty_fs))
     [''gbif_images'', ''amanita'', ''a_3.jpg''] = Some ''http://h/z/a.jpg''"
  by code_simp
section \<open>Properties of the drivers\<close>




















end
